theory Spec2Isabelle
  imports Main "HOL-Library.Sublist" "HOL-Library.Multiset" "HOL-Library.Char_ord"
    "HOL-Library.List_Lexorder"
begin

section \<open>The file tree\<close>

text \<open>
  The interface \<open>FileExplorer\<close> of the IDE component: a name, a type that is
  \<open>"file"\<close> or \<open>"directory"\<close>, and three optional fields. An optional field that
  is absent (\<open>undefined\<close>) is \<open>None\<close>.
\<close>

datatype node_type = File | Directory

datatype FileExplorer =
  FileExplorer (name: string) (type: node_type) (children: "FileExplorer list option")
    (content: "string option") (language: "string option")

text \<open>
  \<open>s.replace(pat, "")\<close> with a string pattern: the first occurrence of \<open>pat\<close>
  in \<open>s\<close>, wherever it stands, is removed; \<open>s\<close> is returned as it is when
  \<open>pat\<close> does not occur. The first argument is the pattern, the second the string.
\<close>

fun replace_first :: "string \<Rightarrow> string \<Rightarrow> string" where
  "replace_first pat [] = []"
| "replace_first pat (c # cs) =
     (if prefix pat (c # cs) then drop (length pat) (c # cs) else c # replace_first pat cs)"

text \<open>
  \<open>findFileContent\<close>: the result is \<open>Some (content, language)\<close> of the node found,
  or \<open>None\<close> for \<open>null\<close>. \<open>findInChildren\<close> is the \<open>for\<close> loop over
  \<open>node.children\<close>, which returns the first result that is not \<open>null\<close>. An empty
  array is truthy, so the loop is entered whenever \<open>children\<close> is present.
\<close>

fun findFileContent :: "FileExplorer \<Rightarrow> string \<Rightarrow> (string option \<times> string option) option"
  and findInChildren :: "FileExplorer list \<Rightarrow> string \<Rightarrow> (string option \<times> string option) option"
  where
  "findFileContent (FileExplorer nm ty chs co la) targetPath =
     (let nodePath = ''/'' @ nm in
      if nodePath = targetPath then Some (co, la)
      else (case chs of
              None \<Rightarrow> None
            | Some cs \<Rightarrow> findInChildren cs (replace_first nodePath targetPath)))"
| "findInChildren [] t = None"
| "findInChildren (child # rest) t =
     (case findFileContent child t of
        Some result \<Rightarrow> Some result
      | None \<Rightarrow> findInChildren rest t)"

text \<open>
  The paths of a tree as \<open>FileTree\<close> builds them: \<open>fullPath = `${path}/${item.name}`\<close>,
  handed down to every child as its \<open>path\<close>, starting from the empty path at the root.
  \<open>treePaths\<close> lists every node of the tree with its path.
\<close>

fun treePaths :: "string \<Rightarrow> FileExplorer \<Rightarrow> (string \<times> FileExplorer) list" where
  "treePaths path (FileExplorer nm ty chs co la) =
     (let fullPath = path @ ''/'' @ nm in
      (fullPath, FileExplorer nm ty chs co la) #
      (case chs of None \<Rightarrow> [] | Some cs \<Rightarrow> concat (map (treePaths fullPath) cs)))"

subsection \<open>The order of display\<close>

text \<open>
  The comparison function handed to \<open>sort\<close> in \<open>FileTree\<close>. The platform's
  \<open>String.prototype.localeCompare\<close> is a parameter: it returns a negative number, zero
  or a positive number.
\<close>

definition compareChildren ::
  "(string \<Rightarrow> string \<Rightarrow> int) \<Rightarrow> FileExplorer \<Rightarrow> FileExplorer \<Rightarrow> int" where
  "compareChildren localeCompare a b =
     (if type a = Directory \<and> type b = File then - 1
      else if type a = File \<and> type b = Directory then 1
      else localeCompare (name a) (name b))"

text \<open>
  What ECMAScript asks of a comparison function for the result of \<open>sort\<close> to be
  defined: the sign of \<open>cmp a b\<close> is opposite to that of \<open>cmp b a\<close>, and
  "not after" is transitive.
\<close>

definition consistentComparator :: "('a \<Rightarrow> 'a \<Rightarrow> int) \<Rightarrow> bool" where
  "consistentComparator cmp =
     ((\<forall>a b. (cmp a b < 0) = (0 < cmp b a)) \<and>
      (\<forall>a b c. cmp a b \<le> 0 \<and> cmp b c \<le> 0 \<longrightarrow> cmp a c \<le> 0))"

text \<open>
  \<open>Array.prototype.sort\<close> is stable: elements that compare equal keep their order.
  With a consistent comparison function the result is the one sorted arrangement that
  does so, which a stable insertion sort computes.
\<close>

fun insert_by :: "('a \<Rightarrow> 'a \<Rightarrow> int) \<Rightarrow> 'a \<Rightarrow> 'a list \<Rightarrow> 'a list" where
  "insert_by cmp x [] = [x]"
| "insert_by cmp x (y # ys) = (if cmp x y \<le> 0 then x # y # ys else y # insert_by cmp x ys)"

definition sort_js :: "('a \<Rightarrow> 'a \<Rightarrow> int) \<Rightarrow> 'a list \<Rightarrow> 'a list" where
  "sort_js cmp xs = foldr (insert_by cmp) xs []"

lemma set_insert_by: "set (insert_by cmp x ys) = insert x (set ys)"
  by (induction ys) auto

lemma set_sort_js: "set (sort_js cmp xs) = set xs"
  by (induction xs) (auto simp: sort_js_def set_insert_by)

lemma size_child_less: "x \<in> set xs \<Longrightarrow> size x < Suc (Suc (size_list size xs))"
  using size_list_estimation' [of x xs "size x" size] by simp

text \<open>
  The directory branch of \<open>FileTree\<close> for one node:
  \<open>item.children?.sort(...)\<close> sorts the node's own array in place and returns it, so
  the node afterwards holds the sorted array, and the sorted array is the sequence that
  is mapped to the child components. A node whose type is \<open>"file"\<close> never reaches the
  sort. The result is the node after the call and the sequence displayed (\<open>None\<close>
  when nothing is).
\<close>

definition FileTree ::
  "(string \<Rightarrow> string \<Rightarrow> int) \<Rightarrow> FileExplorer \<Rightarrow> FileExplorer \<times> FileExplorer list option" where
  "FileTree localeCompare item =
     (if type item = Directory then
        (case children item of
           None \<Rightarrow> (item, None)
         | Some cs \<Rightarrow>
             (let sorted = sort_js (compareChildren localeCompare) cs in
              (FileExplorer (name item) (type item) (Some sorted) (content item) (language item),
               Some sorted)))
      else (item, None))"

text \<open>
  Rendering a tree: every \<open>FileTree\<close> that runs sorts its node's children, and the
  child components run where the accordion of the node is open (\<open>isOpen\<close>, the state
  of the accordion component, keyed by \<open>fullPath\<close>). The result is the tree after the
  render.
\<close>

function renderTree ::
  "(string \<Rightarrow> string \<Rightarrow> int) \<Rightarrow> (string \<Rightarrow> bool) \<Rightarrow> string \<Rightarrow> FileExplorer \<Rightarrow> FileExplorer" where
  "renderTree localeCompare isOpen path (FileExplorer nm ty chs co la) =
    (let fullPath = path @ ''/'' @ nm in
     if ty = Directory then
       (case chs of
          None \<Rightarrow> FileExplorer nm ty None co la
        | Some cs \<Rightarrow>
            (let sorted = sort_js (compareChildren localeCompare) cs in
             FileExplorer nm ty
               (Some (if isOpen fullPath
                      then map (renderTree localeCompare isOpen fullPath) sorted
                      else sorted))
               co la))
     else FileExplorer nm ty chs co la)"
  by pat_completeness auto
termination
  by (relation "measure (\<lambda>(lc, isOpen, path, item). size item)")
    (auto simp: set_sort_js size_child_less)

section \<open>The store\<close>

text \<open>
  \<open>selectedPath\<close> is declared \<open>string | null\<close>, and \<open>handleCloseFile\<close> stores an
  array element read out of range, which is \<open>undefined\<close>: the three cases are kept apart.
\<close>

datatype selection = Null | Undefined | Path string

record FileStoreState =
  expandedPaths :: "string set"
  selectedPath :: selection
  openedFiles :: "string list"

definition initialStore :: FileStoreState where
  "initialStore = \<lparr>expandedPaths = {}, selectedPath = Null, openedFiles = []\<rparr>"

definition toggleExpanded :: "string \<Rightarrow> FileStoreState \<Rightarrow> FileStoreState" where
  "toggleExpanded path state =
     (let newExpanded = expandedPaths state in
      state\<lparr>expandedPaths :=
        (if path \<in> newExpanded then newExpanded - {path} else insert path newExpanded)\<rparr>)"

definition setSelectedPath :: "selection \<Rightarrow> FileStoreState \<Rightarrow> FileStoreState" where
  "setSelectedPath path state = state\<lparr>selectedPath := path\<rparr>"

definition setOpenedFiles :: "string list \<Rightarrow> FileStoreState \<Rightarrow> FileStoreState" where
  "setOpenedFiles files state = state\<lparr>openedFiles := files\<rparr>"

text \<open>\<open>xs[i]\<close> as JavaScript reads it: \<open>undefined\<close> outside the array.\<close>

definition at_index :: "string list \<Rightarrow> int \<Rightarrow> selection" where
  "at_index xs i = (if 0 \<le> i \<and> i < int (length xs) then Path (xs ! nat i) else Undefined)"

text \<open>
  The handlers are closures over the \<open>openedFiles\<close> and \<open>selectedPath\<close> that the
  component read from the store when it rendered: every array they read is that
  snapshot, whatever the store holds by then. The store is the argument, and the result
  is the store after the handler has run.
\<close>

definition handleCloseFile :: "string \<Rightarrow> FileStoreState \<Rightarrow> FileStoreState" where
  "handleCloseFile path state =
     (let opened = openedFiles state;
          selected = selectedPath state;
          state1 = setOpenedFiles (filter (\<lambda>f. f \<noteq> path) opened) state
      in if selected = Path path
         then setSelectedPath (at_index opened (int (length opened) - 2)) state1
         else state1)"

text \<open>
  \<open>maxFilesOpen || 5\<close>: the property is optional, and \<open>0\<close> is falsy.
\<close>

definition capacity :: "int option \<Rightarrow> int" where
  "capacity maxFilesOpen =
     (case maxFilesOpen of None \<Rightarrow> 5 | Some k \<Rightarrow> if k = 0 then 5 else k)"

definition handleFileOpen :: "int option \<Rightarrow> string \<Rightarrow> FileStoreState \<Rightarrow> FileStoreState" where
  "handleFileOpen maxFilesOpen filePath state =
     (let opened = openedFiles state;
          state2 =
            (if filePath \<notin> set opened then
               (let state1 =
                      (if capacity maxFilesOpen \<le> int (length opened) then
                         (let fileToClose = at_index opened 0 in
                          setOpenedFiles (filter (\<lambda>file. Path file \<noteq> fileToClose) opened) state)
                       else state)
                in setOpenedFiles (opened @ [filePath]) state1)
             else state)
      in setSelectedPath (Path filePath) state2)"

section \<open>The component as a state machine\<close>

text \<open>
  The state the intents act on: the tree handed to the component as \<open>root\<close>, and
  the store. \<open>Resolve\<close> is the call \<open>findFileContent(root, path)\<close>, which returns
  a value and writes nothing; \<open>Render\<close> renders the tree from the root;
  \<open>OpenFile\<close> is a click on a file of the tree (\<open>handleFileOpen\<close>),
  \<open>CloseFile\<close> is \<open>onCloseFile\<close> (\<open>handleCloseFile\<close>) and
  \<open>SelectFile\<close> is \<open>onSelectFile\<close>, which is \<open>setSelectedPath\<close> itself.
\<close>

record ide_state =
  root :: FileExplorer
  store :: FileStoreState

datatype intent =
  Resolve string
  | Render "string \<Rightarrow> bool"
  | OpenFile string
  | CloseFile string
  | SelectFile string

fun step :: "(string \<Rightarrow> string \<Rightarrow> int) \<Rightarrow> int option \<Rightarrow> ide_state \<Rightarrow> intent \<Rightarrow> ide_state" where
  "step localeCompare maxFilesOpen s (Resolve path) = s"
| "step localeCompare maxFilesOpen s (Render isOpen) =
     s\<lparr>root := renderTree localeCompare isOpen [] (root s)\<rparr>"
| "step localeCompare maxFilesOpen s (OpenFile path) =
     s\<lparr>store := handleFileOpen maxFilesOpen path (store s)\<rparr>"
| "step localeCompare maxFilesOpen s (CloseFile path) =
     s\<lparr>store := handleCloseFile path (store s)\<rparr>"
| "step localeCompare maxFilesOpen s (SelectFile path) =
     s\<lparr>store := setSelectedPath (Path path) (store s)\<rparr>"

definition run ::
  "(string \<Rightarrow> string \<Rightarrow> int) \<Rightarrow> int option \<Rightarrow> ide_state \<Rightarrow> intent list \<Rightarrow> ide_state" where
  "run localeCompare maxFilesOpen s intents = foldl (step localeCompare maxFilesOpen) s intents"

definition initialState :: "FileExplorer \<Rightarrow> ide_state" where
  "initialState tree = \<lparr>root = tree, store = initialStore\<rparr>"

text \<open>Opening files one after the other, from the empty store.\<close>

definition openAll :: "int option \<Rightarrow> string list \<Rightarrow> FileStoreState" where
  "openAll maxFilesOpen files =
     foldl (\<lambda>state filePath. handleFileOpen maxFilesOpen filePath state) initialStore files"

text \<open>The selection is absent, or one of the opened files.\<close>

definition selectionOpen :: "FileStoreState \<Rightarrow> bool" where
  "selectionOpen state =
     (case selectedPath state of
        Path p \<Rightarrow> p \<in> set (openedFiles state)
      | Null \<Rightarrow> True
      | Undefined \<Rightarrow> True)"

subsection \<open>Trees for the examples\<close>

definition fileNode :: "string \<Rightarrow> string \<Rightarrow> FileExplorer" where
  "fileNode nm co = FileExplorer nm File None (Some co) None"

definition dirNode :: "string \<Rightarrow> FileExplorer list \<Rightarrow> FileExplorer" where
  "dirNode nm cs = FileExplorer nm Directory (Some cs) None None"

text \<open>A file \<open>/r/b\<close> beside a directory \<open>/r/a\<close> that holds a file \<open>b\<close> of its own.\<close>

definition shadowTree :: FileExplorer where
  "shadowTree = dirNode ''r'' [dirNode ''a'' [fileNode ''b'' ''X''], fileNode ''b'' ''Y'']"

text \<open>Siblings \<open>app\<close> and \<open>app2\<close>, each with a file \<open>c\<close>.\<close>

definition appTree :: FileExplorer where
  "appTree =
     dirNode ''r'' [dirNode ''app'' [fileNode ''c'' ''A''], dirNode ''app2'' [fileNode ''c'' ''B'']]"

text \<open>A directory whose children are in neither order.\<close>

definition srcDir :: FileExplorer where
  "srcDir = dirNode ''src''
     [fileNode ''b.ts'' ''foo'', dirNode ''lib'' [], fileNode ''a.ts'' ''x'', dirNode ''app'' []]"

text \<open>
  A comparison of names by their character codes: a consistent comparison function to
  run the examples with, in the place of \<open>localeCompare\<close>.
\<close>

definition codeOrder :: "string \<Rightarrow> string \<Rightarrow> int" where
  "codeOrder a b = (if a < b then - 1 else if a = b then 0 else 1)"

subsection \<open>Which sequences of intents keep the selection open\<close>

text \<open>
  An intent is \<open>permitted\<close> in a store when it is not the selection of a path that
  is not open, and not the closing of the selected file while that file is the element
  at index \<open>length - 2\<close> of the opened files.
\<close>

fun permitted :: "FileStoreState \<Rightarrow> intent \<Rightarrow> bool" where
  "permitted state (SelectFile path) = (path \<in> set (openedFiles state))"
| "permitted state (CloseFile path) =
     (selectedPath state \<noteq> Path path \<or>
      at_index (openedFiles state) (int (length (openedFiles state)) - 2) \<noteq> Path path)"
| "permitted state (OpenFile path) = True"
| "permitted state (Resolve path) = True"
| "permitted state (Render isOpen) = True"

fun permittedRun ::
  "(string \<Rightarrow> string \<Rightarrow> int) \<Rightarrow> int option \<Rightarrow> ide_state \<Rightarrow> intent list \<Rightarrow> bool" where
  "permittedRun localeCompare maxFilesOpen s [] = True"
| "permittedRun localeCompare maxFilesOpen s (i # intents) =
     (permitted (store s) i \<and>
      permittedRun localeCompare maxFilesOpen (step localeCompare maxFilesOpen s i) intents)"

text \<open>The invariant of the store on such sequences.\<close>

definition tabsInv :: "FileStoreState \<Rightarrow> bool" where
  "tabsInv state = (distinct (openedFiles state) \<and> selectionOpen state)"

subsection \<open>What a render leaves of the tree\<close>

text \<open>
  The nodes of a tree, each with its path, name, type, content, language and number of
  children, as a multiset: everything about the tree but the order of the children.
\<close>

fun nodeFacts ::
  "string \<Rightarrow> FileExplorer \<Rightarrow>
     (string \<times> string \<times> node_type \<times> string option \<times> string option \<times> nat option) multiset" where
  "nodeFacts path (FileExplorer nm ty chs co la) =
     (let fullPath = path @ ''/'' @ nm in
      add_mset (fullPath, nm, ty, co, la, map_option length chs)
        (case chs of None \<Rightarrow> {#} | Some cs \<Rightarrow> sum_list (map (nodeFacts fullPath) cs)))"

fun isRender :: "intent \<Rightarrow> bool" where
  "isRender (Render isOpen) = True"
| "isRender (Resolve path) = False"
| "isRender (OpenFile path) = False"
| "isRender (CloseFile path) = False"
| "isRender (SelectFile path) = False"

section \<open>Search in the code block\<close>

text \<open>
  The state of the search in \<open>CodeBlock\<close>: \<open>currentResultIndex\<close> starts at
  \<open>initialSearchResults.length > 0 ? 0 : -1\<close>.
\<close>

definition initialResultIndex :: "nat list \<Rightarrow> int" where
  "initialResultIndex initialSearchResults =
     (if length initialSearchResults > 0 then 0 else - 1)"

text \<open>
  Modelled from the spec: the sources of \<open>CodeBlock\<close> end with its state
  declarations, and the function that computes the search results is missing. The
  spec's "case-insensitive": both strings are compared in lower case (the letters
  \<open>A\<close> to \<open>Z\<close>).
\<close>

definition toLowerCase :: "string \<Rightarrow> string" where
  "toLowerCase s =
     map (\<lambda>c. if CHR ''A'' \<le> c \<and> c \<le> CHR ''Z'' then char_of (of_char c + (32::nat)) else c) s"

text \<open>
  Modelled from the spec: "occurrence of \<open>query\<close> as a substring", for the missing
  search function: the query starts at some position of the line.
\<close>

fun includes_str :: "string \<Rightarrow> string \<Rightarrow> bool" where
  "includes_str [] q = (q = [])"
| "includes_str (c # cs) q = (prefix q (c # cs) \<or> includes_str cs q)"

text \<open>
  Modelled from the spec: the lines of the buffer that the spec's "line numbers" count,
  for the missing search function: the pieces between line feeds.
\<close>

fun splitLines :: "string \<Rightarrow> string list" where
  "splitLines [] = [[]]"
| "splitLines (c # cs) =
     (if c = CHR 0x0A then [] # splitLines cs
      else (case splitLines cs of
              [] \<Rightarrow> [[c]]
            | l # ls \<Rightarrow> (c # l) # ls))"

text \<open>
  Modelled from the spec: the numbers of the lines that hold the query, for the missing
  search function; \<open>n\<close> is the number of the first line of the list.
\<close>

fun matchingLines :: "nat \<Rightarrow> string list \<Rightarrow> string \<Rightarrow> nat list" where
  "matchingLines n [] query = []"
| "matchingLines n (l # ls) query =
     (if includes_str (toLowerCase l) (toLowerCase query)
      then n # matchingLines (Suc n) ls query
      else matchingLines (Suc n) ls query)"

text \<open>
  Modelled from the spec: \<open>setQuery(buffer, query)\<close>, the missing search function.
  The result is \<open>matches\<close> and \<open>cursor\<close>; an empty query has no matches, and the
  lines are numbered from 1.
\<close>

definition setQuery :: "string \<Rightarrow> string \<Rightarrow> nat list \<times> int" where
  "setQuery buffer query =
     (if query = [] then ([], - 1)
      else (let matches = matchingLines 1 (splitLines buffer) query
            in (matches, if matches = [] then - 1 else 0)))"

section \<open>Path resolution\<close>

text \<open>
  C1. The claim: for the path of a node, built by joining the names from the root down
  with \<open>/\<close>, \<open>findFileContent\<close> returns the content and language of that node, and
  it returns \<open>null\<close> for every other path.

  The function does neither on \<open>shadowTree\<close>. It walks into every child, whether
  the child's name matched the path or not, and returns the first node whose own name
  ends the path that is left: \<open>/r/b\<close> is the path of the file with content
  \<open>Y\<close>, and the result is the content \<open>X\<close> of \<open>/r/a/b\<close>, found first;
  \<open>/b\<close> is the path of no node, and the result is not \<open>null\<close>.
\<close>

theorem findFileContent_shadowed:
  "(''/r/b'', fileNode ''b'' ''Y'') \<in> set (treePaths [] shadowTree) \<and>
   findFileContent shadowTree ''/r/b'' = Some (Some ''X'', None) \<and>
   ''/b'' \<notin> fst ` set (treePaths [] shadowTree) \<and>
   findFileContent shadowTree ''/b'' = Some (Some ''X'', None)"
  by (simp add: shadowTree_def dirNode_def fileNode_def)

text \<open>
  The siblings \<open>app\<close> and \<open>app2\<close> of the claim are resolved as it says: what is
  left of \<open>/app2/c\<close> once \<open>/app\<close> is taken out starts with \<open>2\<close>, and matches
  nothing below \<open>app\<close>.
\<close>

lemma findFileContent_appTree:
  "findFileContent appTree ''/r/app2/c'' = Some (Some ''B'', None)"
  by (simp add: appTree_def dirNode_def fileNode_def)

lemma replace_first_prefix: "replace_first pat (pat @ rest) = rest"
proof (cases "pat @ rest")
  case Nil
  then show ?thesis by simp
next
  case (Cons a list)
  then have "prefix pat (a # list)" by (metis prefixI)
  then have "replace_first pat (a # list) = drop (length pat) (a # list)" by simp
  with Cons show ?thesis by (metis append_eq_conv_conj)
qed

lemma findInChildren_found:
  "c \<in> set cs \<Longrightarrow> findFileContent c t \<noteq> None \<Longrightarrow> findInChildren cs t \<noteq> None"
  by (induction cs) (auto split: option.splits)

lemma treePaths_prefix:
  "(p, n) \<in> set (treePaths path item) \<Longrightarrow> \<exists>rest. p = path @ rest"
proof (induction path item arbitrary: p rule: treePaths.induct)
  case (1 path nm ty chs co la)
  show ?case
  proof (cases "p = path @ ''/'' @ nm")
    case True
    then show ?thesis by blast
  next
    case False
    with "1.prems" obtain cs c where "chs = Some cs" "c \<in> set cs"
      "(p, n) \<in> set (treePaths (path @ ''/'' @ nm) c)"
      by (auto simp: Let_def split: option.splits)
    from "1.IH" [OF refl this] obtain rest where "p = (path @ ''/'' @ nm) @ rest" by blast
    then show ?thesis by simp
  qed
qed

lemma findFileContent_of_path:
  "(path @ rest, n) \<in> set (treePaths path item) \<Longrightarrow> findFileContent item rest \<noteq> None"
proof (induction path item arbitrary: rest rule: treePaths.induct)
  case (1 path nm ty chs co la)
  let ?full = "path @ ''/'' @ nm"
  show ?case
  proof (cases "rest = ''/'' @ nm")
    case True
    then show ?thesis by simp
  next
    case False
    with "1.prems" obtain cs c where cs: "chs = Some cs" and c: "c \<in> set cs"
      and mem: "(path @ rest, n) \<in> set (treePaths ?full c)"
      by (auto simp: Let_def split: option.splits)
    from treePaths_prefix [OF mem] obtain rest' where "path @ rest = ?full @ rest'" by blast
    then have rest: "rest = (''/'' @ nm) @ rest'" by simp
    from mem rest have "(?full @ rest', n) \<in> set (treePaths ?full c)" by simp
    from "1.IH" [OF refl cs c this] have "findFileContent c rest' \<noteq> None" .
    with c have "findInChildren cs rest' \<noteq> None" by (rule findInChildren_found)
    moreover have "replace_first (''/'' @ nm) rest = rest'"
      unfolding rest by (rule replace_first_prefix)
    ultimately show ?thesis using cs False by (simp add: Let_def)
  qed
qed

text \<open>
  The path of a node is never answered with \<open>null\<close>: the walk along the names of
  the path strips each name where it stands first, and reaches the node, unless
  a child visited before returns a node of its own.
\<close>

lemma findFileContent_path_found:
  "(p, n) \<in> set (treePaths [] item) \<Longrightarrow> findFileContent item p \<noteq> None"
  using findFileContent_of_path [of "[]" p n item] by simp

section \<open>Opening files\<close>

text \<open>What the two handlers leave in the store.\<close>

lemma handleFileOpen_store:
  "openedFiles (handleFileOpen m p st) =
     (if p \<in> set (openedFiles st) then openedFiles st else openedFiles st @ [p]) \<and>
   selectedPath (handleFileOpen m p st) = Path p \<and>
   expandedPaths (handleFileOpen m p st) = expandedPaths st"
  by (simp add: handleFileOpen_def Let_def setSelectedPath_def setOpenedFiles_def)

lemma handleCloseFile_store:
  "openedFiles (handleCloseFile p st) = filter (\<lambda>f. f \<noteq> p) (openedFiles st) \<and>
   selectedPath (handleCloseFile p st) =
     (if selectedPath st = Path p
      then at_index (openedFiles st) (int (length (openedFiles st)) - 2)
      else selectedPath st) \<and>
   expandedPaths (handleCloseFile p st) = expandedPaths st"
  by (simp add: handleCloseFile_def Let_def setSelectedPath_def setOpenedFiles_def)

text \<open>
  C2. The claim: after any sequence of calls of \<open>handleFileOpen\<close> from the empty
  store, at most \<open>maxFilesOpen\<close> files are open, none of them twice.

  With the default of five, the sixth file opened makes six: the handler stores the
  array without its first element, and then stores the array it read when the component
  rendered, with the new path appended, over it.
\<close>

theorem capacity_exceeded:
  "openedFiles (openAll None [''/1'', ''/2'', ''/3'', ''/4'', ''/5'', ''/6'']) =
     [''/1'', ''/2'', ''/3'', ''/4'', ''/5'', ''/6''] \<and>
   capacity None = 5 \<and>
   capacity None < int (length (openedFiles (openAll None [''/1'', ''/2'', ''/3'', ''/4'', ''/5'', ''/6''])))"
  by (simp add: openAll_def handleFileOpen_def capacity_def initialStore_def Let_def
      setSelectedPath_def setOpenedFiles_def at_index_def)

text \<open>
  C3. The claim: opening \<open>maxFilesOpen + 1\<close> distinct files \<open>f1, ...\<close> in order
  leaves all but \<open>f1\<close> open, in the order they were opened.

  With \<open>maxFilesOpen = 1\<close>, opening \<open>a.ts\<close> and then \<open>b.ts\<close> leaves both open.
\<close>

theorem no_fifo_eviction:
  "openedFiles (openAll (Some 1) [''/proj/src/a.ts'', ''/proj/src/b.ts'']) =
     [''/proj/src/a.ts'', ''/proj/src/b.ts''] \<and>
   openedFiles (openAll (Some 1) [''/proj/src/a.ts'', ''/proj/src/b.ts'']) \<noteq> [''/proj/src/b.ts'']"
  by (simp add: openAll_def handleFileOpen_def capacity_def initialStore_def Let_def
      setSelectedPath_def setOpenedFiles_def at_index_def)

text \<open>
  Whatever \<open>maxFilesOpen\<close> is, files opened one after the other, each for the first
  time, all stay open.
\<close>

lemma foldl_handleFileOpen_distinct:
  "distinct (openedFiles st @ files) \<Longrightarrow>
   openedFiles (foldl (\<lambda>state filePath. handleFileOpen m filePath state) st files) =
     openedFiles st @ files"
proof (induction files arbitrary: st)
  case Nil
  then show ?case by simp
next
  case (Cons f files)
  from Cons.prems have "openedFiles (handleFileOpen m f st) = openedFiles st @ [f]"
    by (simp add: handleFileOpen_store)
  with Cons.prems Cons.IH [of "handleFileOpen m f st"] show ?case by simp
qed

lemma openAll_distinct: "distinct files \<Longrightarrow> openedFiles (openAll m files) = files"
  using foldl_handleFileOpen_distinct [of initialStore files m]
  by (simp add: openAll_def initialStore_def)

section \<open>Closing and selecting files\<close>

text \<open>
  When \<open>handleCloseFile\<close> is called with the selected path, the new selection is
  the element at index \<open>length - 2\<close> of the array of opened files as it was before the
  call, and \<open>undefined\<close> when the array has no such index; the path is taken out of
  the opened files.
\<close>

lemma handleCloseFile_selected:
  assumes "selectedPath s = Path p"
  shows "selectedPath (handleCloseFile p s) =
           (if 2 \<le> length (openedFiles s)
            then Path (openedFiles s ! (length (openedFiles s) - 2))
            else Undefined) \<and>
         openedFiles (handleCloseFile p s) = filter (\<lambda>f. f \<noteq> p) (openedFiles s)"
  using assms
  by (auto simp: handleCloseFile_def Let_def setSelectedPath_def setOpenedFiles_def at_index_def
      nat_diff_distrib)

text \<open>
  With \<open>a\<close>, \<open>b\<close>, \<open>c\<close> open and \<open>c\<close> selected, closing \<open>c\<close> selects
  \<open>b\<close>.
\<close>

lemma handleCloseFile_last_of_three:
  "selectedPath (handleCloseFile ''c''
      \<lparr>expandedPaths = {}, selectedPath = Path ''c'', openedFiles = [''a'', ''b'', ''c'']\<rparr>) =
     Path ''b''"
  using handleCloseFile_selected [of "\<lparr>expandedPaths = {}, selectedPath = Path ''c'', openedFiles = [''a'', ''b'', ''c'']\<rparr>" "''c''"]
  by simp

text \<open>
  C4. The claim: closing the selected file selects the element that was at index
  \<open>length - 2\<close> of the opened files, and \<open>null\<close> when there is none; closing the
  only file open selects \<open>null\<close>.

  The index is as the claim says. Where there is no such element, the handler stores
  what the array read gives, \<open>undefined\<close>, in a field that the store declares as
  \<open>string | null\<close>: after \<open>/proj/src/a.ts\<close> is opened from the empty store and
  closed, no file is open, and the selection is \<open>undefined\<close> and not \<open>null\<close>.
\<close>

theorem handleCloseFile_only_file_undefined:
  "selectedPath (openAll None [''/proj/src/a.ts'']) = Path ''/proj/src/a.ts'' \<and>
   openedFiles (openAll None [''/proj/src/a.ts'']) = [''/proj/src/a.ts''] \<and>
   openedFiles (handleCloseFile ''/proj/src/a.ts'' (openAll None [''/proj/src/a.ts''])) = [] \<and>
   selectedPath (handleCloseFile ''/proj/src/a.ts'' (openAll None [''/proj/src/a.ts''])) =
     Undefined \<and>
   selectedPath (handleCloseFile ''/proj/src/a.ts'' (openAll None [''/proj/src/a.ts''])) \<noteq> Null"
  by (simp add: openAll_def initialStore_def handleFileOpen_def handleCloseFile_def
      setSelectedPath_def setOpenedFiles_def Let_def capacity_def at_index_def)

text \<open>
  C6. The claim: selecting a path that is not open changes nothing. It fails: the
  store's \<open>setSelectedPath\<close>, which is what \<open>onSelectFile\<close> is bound to, has no
  condition, and selects a path with no file open.
\<close>

theorem select_unopened_counterexample:
  "''/x'' \<notin> set (openedFiles initialStore) \<and>
   selectedPath (setSelectedPath (Path ''/x'') initialStore) = Path ''/x'' \<and>
   setSelectedPath (Path ''/x'') initialStore \<noteq> initialStore"
  by (simp add: setSelectedPath_def initialStore_def)

text \<open>
  C6 as amended: selecting a path makes it the selection whether it is open or not, and
  leaves the opened files and the expanded paths, and the tree, as they are.
\<close>

theorem setSelectedPath_unguarded:
  "selectedPath (setSelectedPath (Path p) s) = Path p \<and>
   openedFiles (setSelectedPath (Path p) s) = openedFiles s \<and>
   expandedPaths (setSelectedPath (Path p) s) = expandedPaths s \<and>
   store (step lc m st (SelectFile p)) = setSelectedPath (Path p) (store st) \<and>
   root (step lc m st (SelectFile p)) = root st"
  by (simp add: setSelectedPath_def)

section \<open>Expanded paths\<close>

text \<open>
  C10. \<open>toggleExpanded p\<close> changes whether \<open>p\<close> is among the expanded paths and
  whether no other path is; it leaves the rest of the store as it is; and two calls in
  a row give back the store they started from.
\<close>

theorem toggleExpanded_flips_only_path:
  "(p \<in> expandedPaths (toggleExpanded p s) \<longleftrightarrow> p \<notin> expandedPaths s) \<and>
   (\<forall>q. q \<noteq> p \<longrightarrow> (q \<in> expandedPaths (toggleExpanded p s) \<longleftrightarrow> q \<in> expandedPaths s)) \<and>
   selectedPath (toggleExpanded p s) = selectedPath s \<and>
   openedFiles (toggleExpanded p s) = openedFiles s \<and>
   expandedPaths (toggleExpanded p (toggleExpanded p s)) = expandedPaths s \<and>
   toggleExpanded p (toggleExpanded p s) = s"
  by (auto simp: toggleExpanded_def Let_def insert_absorb)

theorem toggleExpanded_flips_only_path_witness:
  "''/proj/src'' \<in> expandedPaths (toggleExpanded ''/proj/src'' initialStore) \<and>
   ''/proj/lib'' \<notin> expandedPaths (toggleExpanded ''/proj/src'' initialStore) \<and>
   toggleExpanded ''/proj/src'' (toggleExpanded ''/proj/src'' initialStore) = initialStore"
  using toggleExpanded_flips_only_path [of "''/proj/src''" initialStore]
  by (simp add: initialStore_def)

section \<open>The selection and the opened files\<close>

lemma tabsInv_open: "distinct (openedFiles st) \<Longrightarrow> tabsInv (handleFileOpen m p st)"
  by (simp add: tabsInv_def selectionOpen_def handleFileOpen_store)

lemma tabsInv_select:
  "tabsInv st \<Longrightarrow> p \<in> set (openedFiles st) \<Longrightarrow> tabsInv (setSelectedPath (Path p) st)"
  by (simp add: tabsInv_def selectionOpen_def setSelectedPath_def)

lemma tabsInv_close:
  assumes "tabsInv st" and "permitted st (CloseFile p)"
  shows "tabsInv (handleCloseFile p st)"
proof (cases "selectedPath st = Path p")
  case False
  with assms(1) show ?thesis
    by (auto simp: tabsInv_def selectionOpen_def handleCloseFile_store split: selection.splits)
next
  case True
  let ?i = "int (length (openedFiles st)) - 2"
  from True assms(2) have other: "at_index (openedFiles st) ?i \<noteq> Path p" by simp
  from assms(1) have d: "distinct (openedFiles st)" by (simp add: tabsInv_def)
  show ?thesis
  proof (cases "0 \<le> ?i \<and> ?i < int (length (openedFiles st))")
    case False
    then have "at_index (openedFiles st) ?i = Undefined" by (simp add: at_index_def)
    with True d show ?thesis
      by (simp add: tabsInv_def selectionOpen_def handleCloseFile_store)
  next
    case inside: True
    then have sel: "at_index (openedFiles st) ?i = Path (openedFiles st ! nat ?i)"
      by (simp add: at_index_def)
    with other have "openedFiles st ! nat ?i \<noteq> p" by simp
    moreover from inside have "openedFiles st ! nat ?i \<in> set (openedFiles st)" by simp
    ultimately show ?thesis using True d sel
      by (simp add: tabsInv_def selectionOpen_def handleCloseFile_store)
  qed
qed

lemma tabsInv_step:
  assumes "tabsInv (store s)" and "permitted (store s) i"
  shows "tabsInv (store (step lc m s i))"
proof (cases i)
  case (OpenFile p)
  from assms(1) have "distinct (openedFiles (store s))" by (simp add: tabsInv_def)
  with OpenFile show ?thesis by (simp add: tabsInv_open)
next
  case (CloseFile p)
  with assms show ?thesis by (simp add: tabsInv_close)
next
  case (SelectFile p)
  with assms show ?thesis by (simp add: tabsInv_select)
qed (use assms in simp_all)

lemma tabsInv_run:
  "tabsInv (store s) \<Longrightarrow> permittedRun lc m s intents \<Longrightarrow> tabsInv (store (run lc m s intents))"
proof (induction intents arbitrary: s)
  case Nil
  then show ?case by (simp add: run_def)
next
  case (Cons i intents)
  from Cons.prems have "tabsInv (store (step lc m s i))" by (simp add: tabsInv_step)
  moreover from Cons.prems have "permittedRun lc m (step lc m s i) intents" by simp
  ultimately have "tabsInv (store (run lc m (step lc m s i) intents))" by (rule Cons.IH)
  then show ?case by (simp add: run_def)
qed

text \<open>
  C5. The claim: after any sequence of opening, closing and selecting files from the
  empty store, the selection is absent or one of the opened files. It fails in two
  ways. Selecting a path that is not open selects it. And closing the selected file
  while it is the one before the last of the opened files selects it again:
  after \<open>/r/a/b\<close> and \<open>/r/b\<close> are opened and \<open>/r/a/b\<close> is selected and closed,
  \<open>/r/a/b\<close> is the selection and \<open>/r/b\<close> the only file open.
\<close>

theorem selection_not_open_counterexample:
  "\<not> selectionOpen (store (run codeOrder None (initialState shadowTree) [SelectFile ''/r/b''])) \<and>
   selectedPath (store (run codeOrder None (initialState shadowTree)
      [OpenFile ''/r/a/b'', OpenFile ''/r/b'', SelectFile ''/r/a/b'', CloseFile ''/r/a/b''])) =
     Path ''/r/a/b'' \<and>
   openedFiles (store (run codeOrder None (initialState shadowTree)
      [OpenFile ''/r/a/b'', OpenFile ''/r/b'', SelectFile ''/r/a/b'', CloseFile ''/r/a/b''])) =
     [''/r/b'']"
  by (simp add: run_def selectionOpen_def initialState_def initialStore_def handleFileOpen_def
      handleCloseFile_def setSelectedPath_def setOpenedFiles_def Let_def capacity_def at_index_def)

text \<open>
  C5 as amended: after any sequence, from the empty store, of opening files, selecting
  paths that are open when they are selected, and closing files, but for the closing of
  the selected file while it is the element at index \<open>length - 2\<close> of the opened
  files (resolving and rendering in between as one likes), the selection is absent or
  one of the opened files, and no file is open twice.
\<close>

theorem selection_open_on_permitted_runs:
  assumes "permittedRun lc m (initialState tree) intents"
  shows "selectionOpen (store (run lc m (initialState tree) intents)) \<and>
         distinct (openedFiles (store (run lc m (initialState tree) intents)))"
proof -
  have "tabsInv (store (initialState tree))"
    by (simp add: tabsInv_def selectionOpen_def initialState_def initialStore_def)
  from tabsInv_run [OF this assms] show ?thesis by (simp add: tabsInv_def)
qed

text \<open>
  With \<open>a.ts\<close>, \<open>b.ts\<close>, \<open>c.ts\<close> opened and \<open>a.ts\<close> selected, closing
  \<open>a.ts\<close>, which is neither last nor at index \<open>length - 2\<close>, selects \<open>b.ts\<close>,
  which stays open.
\<close>

theorem selection_open_on_permitted_runs_witness:
  "permittedRun codeOrder None (initialState srcDir)
     [OpenFile ''/src/a.ts'', OpenFile ''/src/b.ts'', OpenFile ''/src/c.ts'',
      SelectFile ''/src/a.ts'', CloseFile ''/src/a.ts''] \<and>
   selectionOpen (store (run codeOrder None (initialState srcDir)
     [OpenFile ''/src/a.ts'', OpenFile ''/src/b.ts'', OpenFile ''/src/c.ts'',
      SelectFile ''/src/a.ts'', CloseFile ''/src/a.ts''])) \<and>
   selectedPath (store (run codeOrder None (initialState srcDir)
     [OpenFile ''/src/a.ts'', OpenFile ''/src/b.ts'', OpenFile ''/src/c.ts'',
      SelectFile ''/src/a.ts'', CloseFile ''/src/a.ts''])) = Path ''/src/b.ts'' \<and>
   openedFiles (store (run codeOrder None (initialState srcDir)
     [OpenFile ''/src/a.ts'', OpenFile ''/src/b.ts'', OpenFile ''/src/c.ts'',
      SelectFile ''/src/a.ts'', CloseFile ''/src/a.ts''])) = [''/src/b.ts'', ''/src/c.ts'']"
proof -
  have p: "permittedRun codeOrder None (initialState srcDir)
     [OpenFile ''/src/a.ts'', OpenFile ''/src/b.ts'', OpenFile ''/src/c.ts'',
      SelectFile ''/src/a.ts'', CloseFile ''/src/a.ts'']"
    by (simp add: initialState_def initialStore_def handleFileOpen_def handleCloseFile_def
        setSelectedPath_def setOpenedFiles_def Let_def capacity_def at_index_def)
  have r: "store (run codeOrder None (initialState srcDir)
     [OpenFile ''/src/a.ts'', OpenFile ''/src/b.ts'', OpenFile ''/src/c.ts'',
      SelectFile ''/src/a.ts'', CloseFile ''/src/a.ts'']) =
     \<lparr>expandedPaths = {}, selectedPath = Path ''/src/b.ts'',
      openedFiles = [''/src/b.ts'', ''/src/c.ts'']\<rparr>"
    by (simp add: run_def initialState_def initialStore_def handleFileOpen_def
        handleCloseFile_def setSelectedPath_def setOpenedFiles_def Let_def capacity_def
        at_index_def)
  from selection_open_on_permitted_runs [OF p] p r show ?thesis by simp
qed

section \<open>The order of display\<close>

lemma codeOrder_consistent: "consistentComparator codeOrder"
  by (auto simp: consistentComparator_def codeOrder_def)

lemma compareChildren_consistent:
  assumes "consistentComparator lc"
  shows "consistentComparator (compareChildren lc)"
proof -
  from assms have sym: "\<And>a b. (lc a b < 0) = (0 < lc b a)"
    and trans: "\<And>a b c. lc a b \<le> 0 \<Longrightarrow> lc b c \<le> 0 \<Longrightarrow> lc a c \<le> 0"
    unfolding consistentComparator_def by blast+
  have "(compareChildren lc a b < 0) = (0 < compareChildren lc b a)" for a b
    using sym [of "name a" "name b"]
    by (cases "type a"; cases "type b") (simp_all add: compareChildren_def)
  moreover have "compareChildren lc a c \<le> 0"
    if "compareChildren lc a b \<le> 0" "compareChildren lc b c \<le> 0" for a b c
    using that trans [of "name a" "name b" "name c"]
    by (cases "type a"; cases "type b"; cases "type c") (simp_all add: compareChildren_def)
  ultimately show ?thesis
    unfolding consistentComparator_def by blast
qed

lemma mset_insert_by: "mset (insert_by cmp x ys) = add_mset x (mset ys)"
  by (induction ys) auto

lemma mset_sort_js: "mset (sort_js cmp xs) = mset xs"
  by (induction xs) (auto simp: sort_js_def mset_insert_by)

lemma sorted_insert_by:
  assumes "consistentComparator cmp"
    and "sorted_wrt (\<lambda>a b. cmp a b \<le> 0) ys"
  shows "sorted_wrt (\<lambda>a b. cmp a b \<le> 0) (insert_by cmp x ys)"
  using assms(2)
proof (induction ys)
  case Nil
  then show ?case by simp
next
  case (Cons y ys)
  from assms(1) have sym: "\<And>a b. (cmp a b < 0) = (0 < cmp b a)"
    and trans: "\<And>a b c. cmp a b \<le> 0 \<Longrightarrow> cmp b c \<le> 0 \<Longrightarrow> cmp a c \<le> 0"
    unfolding consistentComparator_def by blast+
  show ?case
  proof (cases "cmp x y \<le> 0")
    case True
    with Cons.prems trans show ?thesis by auto
  next
    case False
    then have "cmp y x \<le> 0" using sym [of y x] by simp
    with False Cons show ?thesis by (auto simp: set_insert_by)
  qed
qed

lemma sorted_sort_js:
  "consistentComparator cmp \<Longrightarrow> sorted_wrt (\<lambda>a b. cmp a b \<le> 0) (sort_js cmp xs)"
proof (induction xs)
  case Nil
  then show ?case by (simp add: sort_js_def)
next
  case (Cons x xs)
  then have "sorted_wrt (\<lambda>a b. cmp a b \<le> 0) (insert_by cmp x (sort_js cmp xs))"
    by (simp add: sorted_insert_by)
  then show ?case by (simp add: sort_js_def)
qed

lemma sort_js_sorted_id:
  "sorted_wrt (\<lambda>a b. cmp a b \<le> 0) xs \<Longrightarrow> sort_js cmp xs = xs"
proof (induction xs)
  case Nil
  then show ?case by (simp add: sort_js_def)
next
  case (Cons x xs)
  then have "sort_js cmp xs = xs" by simp
  then have "sort_js cmp (x # xs) = insert_by cmp x xs" by (simp add: sort_js_def)
  also have "\<dots> = x # xs" using Cons.prems by (cases xs) auto
  finally show ?case .
qed

text \<open>
  C7. For a directory node with children, and \<open>localeCompare\<close> a consistent
  comparison function: the sequence \<open>FileTree\<close> displays holds the children of the
  node, each as often as the node does; no file stands before a directory in it; of two
  entries of the same type, the one that stands first has a name that
  \<open>localeCompare\<close> does not put after the name of the other; and rendering the node
  again, as the first render left it, displays the same sequence.
\<close>

theorem FileTree_display_order:
  assumes "consistentComparator localeCompare"
    and "type item = Directory"
    and "children item = Some cs"
  shows "\<exists>ys. snd (FileTree localeCompare item) = Some ys \<and>
           mset ys = mset cs \<and>
           sorted_wrt (\<lambda>a b. \<not> (type a = File \<and> type b = Directory)) ys \<and>
           sorted_wrt (\<lambda>a b. type a = type b \<longrightarrow> localeCompare (name a) (name b) \<le> 0) ys \<and>
           snd (FileTree localeCompare (fst (FileTree localeCompare item))) = Some ys"
proof -
  let ?cmp = "compareChildren localeCompare"
  let ?ys = "sort_js ?cmp cs"
  have srt: "sorted_wrt (\<lambda>a b. ?cmp a b \<le> 0) ?ys"
    using assms(1) by (simp add: compareChildren_consistent sorted_sort_js)
  have shown: "snd (FileTree localeCompare item) = Some ?ys"
    using assms(2,3) by (simp add: FileTree_def Let_def)
  have again: "snd (FileTree localeCompare (fst (FileTree localeCompare item))) = Some ?ys"
    using assms(2,3) srt by (simp add: FileTree_def Let_def sort_js_sorted_id)
  have dirs: "sorted_wrt (\<lambda>a b. \<not> (type a = File \<and> type b = Directory)) ?ys"
    by (rule sorted_wrt_mono_rel [OF _ srt]) (auto simp: compareChildren_def)
  have names: "sorted_wrt (\<lambda>a b. type a = type b \<longrightarrow> localeCompare (name a) (name b) \<le> 0) ?ys"
    by (rule sorted_wrt_mono_rel [OF _ srt]) (auto simp: compareChildren_def split: if_splits)
  from shown again dirs names show ?thesis
    by (simp add: mset_sort_js)
qed

text \<open>
  The children \<open>b.ts\<close>, \<open>lib\<close>, \<open>a.ts\<close>, \<open>app\<close> of \<open>srcDir\<close> are displayed
  as \<open>app\<close>, \<open>lib\<close>, \<open>a.ts\<close>, \<open>b.ts\<close>.
\<close>

theorem FileTree_display_order_witness:
  "consistentComparator codeOrder \<and> type srcDir = Directory \<and>
   children srcDir = Some
     [fileNode ''b.ts'' ''foo'', dirNode ''lib'' [], fileNode ''a.ts'' ''x'', dirNode ''app'' []] \<and>
   snd (FileTree codeOrder srcDir) = Some
     [dirNode ''app'' [], dirNode ''lib'' [], fileNode ''a.ts'' ''x'', fileNode ''b.ts'' ''foo'']"
proof -
  have t: "type srcDir = Directory"
    by (simp add: srcDir_def dirNode_def)
  have c: "children srcDir = Some
     [fileNode ''b.ts'' ''foo'', dirNode ''lib'' [], fileNode ''a.ts'' ''x'', dirNode ''app'' []]"
    by (simp add: srcDir_def dirNode_def)
  have "snd (FileTree codeOrder srcDir) = Some
     [dirNode ''app'' [], dirNode ''lib'' [], fileNode ''a.ts'' ''x'', fileNode ''b.ts'' ''foo'']"
    using FileTree_display_order [OF codeOrder_consistent t c]
    by (simp add: Let_def srcDir_def FileTree_def sort_js_def compareChildren_def codeOrder_def
        dirNode_def fileNode_def)
  with codeOrder_consistent t c show ?thesis by simp
qed

section \<open>The tree under the intents\<close>

lemma sum_list_map_mset_cong:
  fixes f :: "'a \<Rightarrow> 'b multiset"
  assumes "mset xs = mset ys"
  shows "sum_list (map f xs) = sum_list (map f ys)"
proof -
  have "sum_list (map f xs) = sum_mset (image_mset f (mset xs))"
    by (simp flip: sum_mset_sum_list)
  also have "\<dots> = sum_mset (image_mset f (mset ys))" using assms by simp
  also have "\<dots> = sum_list (map f ys)" by (simp flip: sum_mset_sum_list)
  finally show ?thesis .
qed

lemma length_sort_js: "length (sort_js cmp xs) = length xs"
  using mset_sort_js [of cmp xs] by (metis size_mset)

lemma nodeFacts_renderTree:
  "nodeFacts path (renderTree lc isOpen path item) = nodeFacts path item"
proof (induction lc isOpen path item rule: renderTree.induct)
  case (1 lc isOpen path nm ty chs co la)
  let ?full = "path @ ''/'' @ nm"
  show ?case
  proof (cases "ty = Directory \<and> chs \<noteq> None")
    case False
    then show ?thesis by (auto simp: Let_def)
  next
    case True
    then obtain cs where cs: "chs = Some cs" and ty: "ty = Directory" by auto
    let ?sorted = "sort_js (compareChildren lc) cs"
    have perm: "sum_list (map (nodeFacts ?full) ?sorted) = sum_list (map (nodeFacts ?full) cs)"
      by (rule sum_list_map_mset_cong) (simp add: mset_sort_js)
    show ?thesis
    proof (cases "isOpen ?full")
      case False
      with cs ty perm show ?thesis by (simp add: Let_def length_sort_js)
    next
      case opened: True
      have "nodeFacts ?full (renderTree lc isOpen ?full c) = nodeFacts ?full c"
        if "c \<in> set ?sorted" for c
        using "1.IH" [OF refl ty cs refl opened that] .
      then have "map (nodeFacts ?full) (map (renderTree lc isOpen ?full) ?sorted) =
                 map (nodeFacts ?full) ?sorted"
        by simp
      then have rendered:
        "sum_list (map (nodeFacts ?full) (map (renderTree lc isOpen ?full) ?sorted)) =
         sum_list (map (nodeFacts ?full) cs)"
        by (simp only: perm)
      with cs ty opened show ?thesis by (simp add: Let_def length_sort_js)
    qed
  qed
qed

lemma step_not_render_root: "\<not> isRender i \<Longrightarrow> root (step lc m s i) = root s"
  by (cases i) simp_all

lemma step_nodeFacts: "nodeFacts [] (root (step lc m s i)) = nodeFacts [] (root s)"
  by (cases i) (simp_all add: nodeFacts_renderTree)

lemma run_not_render_root:
  "\<forall>i\<in>set intents. \<not> isRender i \<Longrightarrow> root (run lc m s intents) = root s"
  by (induction intents arbitrary: s) (simp_all add: run_def step_not_render_root)

lemma run_nodeFacts: "nodeFacts [] (root (run lc m s intents)) = nodeFacts [] (root s)"
  by (induction intents arbitrary: s) (simp_all add: run_def step_nodeFacts)

text \<open>
  C9 as amended: resolving a path, opening, closing and selecting a file leave the tree
  as it is; and after any sequence of intents, renders among them, the tree has the
  nodes it had, at the paths they had, each with its name, type, content, language and
  number of children: a render changes the order of the children of the directories it
  renders, and nothing else.
\<close>

theorem tree_changes_in_order_only:
  "((\<forall>i\<in>set intents. \<not> isRender i) \<longrightarrow> root (run lc m s intents) = root s) \<and>
   nodeFacts [] (root (run lc m s intents)) = nodeFacts [] (root s)"
  by (simp add: run_not_render_root run_nodeFacts)

theorem tree_changes_in_order_only_witness:
  "root (run codeOrder None (initialState srcDir)
     [Resolve ''/src/a.ts'', OpenFile ''/src/a.ts'', SelectFile ''/src/a.ts'',
      CloseFile ''/src/a.ts'']) = srcDir \<and>
   nodeFacts [] (root (run codeOrder None (initialState srcDir) [Render (\<lambda>path. True)])) =
     nodeFacts [] srcDir"
  using tree_changes_in_order_only [of "[Resolve ''/src/a.ts'', OpenFile ''/src/a.ts'', SelectFile ''/src/a.ts'',
      CloseFile ''/src/a.ts'']" codeOrder None "initialState srcDir"]
    tree_changes_in_order_only [of "[Render (\<lambda>path. True)]" codeOrder None "initialState srcDir"]
  by (simp add: initialState_def)

text \<open>
  C9. The claim: no operation changes the tree, the order of a directory's children
  included. It fails: \<open>FileTree\<close> sorts \<open>item.children\<close> in place, so that one
  render of \<open>srcDir\<close> leaves its children in the order of display.
\<close>

theorem render_reorders_children_counterexample:
  "children srcDir = Some
     [fileNode ''b.ts'' ''foo'', dirNode ''lib'' [], fileNode ''a.ts'' ''x'', dirNode ''app'' []] \<and>
   children (root (run codeOrder None (initialState srcDir) [Render (\<lambda>path. False)])) = Some
     [dirNode ''app'' [], dirNode ''lib'' [], fileNode ''a.ts'' ''x'', fileNode ''b.ts'' ''foo''] \<and>
   root (run codeOrder None (initialState srcDir) [Render (\<lambda>path. False)]) \<noteq> srcDir"
  by (simp add: run_def initialState_def Let_def srcDir_def sort_js_def compareChildren_def
      codeOrder_def dirNode_def fileNode_def)

section \<open>The search results\<close>

lemma includes_str_iff: "includes_str l q \<longleftrightarrow> (\<exists>pre post. l = pre @ q @ post)"
proof -
  have "includes_str l q \<longleftrightarrow> sublist q l"
    by (induction l) (simp_all add: sublist_Cons_right)
  then show ?thesis by (simp add: sublist_def)
qed

lemma set_matchingLines:
  "m \<in> set (matchingLines n ls q) \<longleftrightarrow>
     n \<le> m \<and> m < n + length ls \<and> includes_str (toLowerCase (ls ! (m - n))) (toLowerCase q)"
proof (induction ls arbitrary: n)
  case Nil
  then show ?case by simp
next
  case (Cons l ls)
  show ?case
  proof (cases "m = n")
    case True
    then show ?thesis using Cons.IH [of "Suc n"] by auto
  next
    case False
    then have "(m - n) = Suc (m - Suc n)" if "n \<le> m" using that by arith
    then show ?thesis using False Cons.IH [of "Suc n"] by auto
  qed
qed

lemma sorted_matchingLines: "sorted_wrt (<) (matchingLines n ls q)"
proof (induction ls arbitrary: n)
  case Nil
  then show ?case by simp
next
  case (Cons l ls)
  have "n < m" if "m \<in> set (matchingLines (Suc n) ls q)" for m
    using that by (simp add: set_matchingLines)
  with Cons.IH [of "Suc n"] show ?case by auto
qed

text \<open>
  C8. For a query that is not empty, \<open>matches\<close> holds, in ascending order and once
  each, the numbers from 1 of the lines of the buffer that hold the query somewhere,
  letter case apart; for the empty query \<open>matches\<close> is empty; and \<open>cursor\<close> is
  \<open>0\<close> when there is a match and \<open>-1\<close> when there is none, which is the rule the
  component starts \<open>currentResultIndex\<close> with.
\<close>

theorem setQuery_matches:
  "(query \<noteq> [] \<longrightarrow>
      sorted_wrt (<) (fst (setQuery buffer query)) \<and>
      (\<forall>n. n \<in> set (fst (setQuery buffer query)) \<longleftrightarrow>
           1 \<le> n \<and> n \<le> length (splitLines buffer) \<and>
           (\<exists>pre post. toLowerCase (splitLines buffer ! (n - 1)) = pre @ toLowerCase query @ post))) \<and>
   (query = [] \<longrightarrow> fst (setQuery buffer query) = []) \<and>
   snd (setQuery buffer query) = (if fst (setQuery buffer query) = [] then - 1 else 0) \<and>
   snd (setQuery buffer query) = initialResultIndex (fst (setQuery buffer query))"
proof -
  have "n \<in> set (matchingLines 1 (splitLines buffer) query) \<longleftrightarrow>
          1 \<le> n \<and> n \<le> length (splitLines buffer) \<and>
          (\<exists>pre post. toLowerCase (splitLines buffer ! (n - 1)) = pre @ toLowerCase query @ post)"
    for n
    by (auto simp: set_matchingLines includes_str_iff)
  then show ?thesis
    by (simp add: setQuery_def Let_def sorted_matchingLines initialResultIndex_def)
qed

theorem setQuery_matches_witness:
  "''Foo'' \<noteq> [] \<and>
   setQuery ''foo\<newline>bar\<newline>'' ''Foo'' = ([1], 0) \<and>
   setQuery ''foo\<newline>bar\<newline>'' ''baz'' = ([], - 1) \<and>
   setQuery ''foo\<newline>bar\<newline>'' [] = ([], - 1)"
proof -
  have found: "setQuery ''foo\<newline>bar\<newline>'' ''Foo'' = ([1], 0)"
    by code_simp
  have none: "setQuery ''foo\<newline>bar\<newline>'' ''baz'' = ([], - 1)"
    by code_simp
  have empty: "setQuery ''foo\<newline>bar\<newline>'' [] = ([], - 1)"
    by (simp add: setQuery_def)
  from setQuery_matches [of "''Foo''" "''foo\<newline>bar\<newline>''"] found none empty
  show ?thesis by simp
qed

end
